theory Spec2Isabelle
  imports Main "HOL-Library.Word" "HOL-Library.Sublist"
begin

unbundle bit_operations_syntax

text \<open>
  The plugin adds the flag \<open>--alias\<close> to a command of the bundler and hands its value
  to \<open>@rollup/plugin-alias\<close>. Two files register the flag, each with a \<open>default\<close> and
  a \<open>verify\<close> function: \<open>PluginLoader.addFlags\<close> for the command \<open>bundle\<close>, and the
  init hook \<open>hooks/init/init.js\<close> (\<open>s_ADD_FLAGS\<close>) for the command \<open>build\<close>. The
  functions of the loader keep their names below; those of the init hook carry the
  prefix \<open>init_\<close>. \<open>JSON.parse\<close>, \<open>JSON.stringify\<close> and the transform of
  \<open>@rollup/plugin-alias\<close> are parameters of the functions that call them.
\<close>

section \<open>JavaScript values\<close>

text \<open>
  A JavaScript string is a sequence of 16-bit code units. The pattern of the validator
  has no \<open>u\<close> flag, so it reads the string one code unit at a time.
  \<open>js\<close> writes an ASCII literal as such a string.
\<close>

type_synonym jschar = "16 word"
type_synonym jsstring = "jschar list"

definition js :: "string \<Rightarrow> jsstring" where
  "js cs = map (\<lambda>c. of_nat (of_char c)) cs"

text \<open>
  The values a flag or a decoded environment variable can hold: the JSON values, and
  \<open>undefined\<close>. An object is the list of its own properties. Numbers are left out:
  no operation below inspects one, and their conversion to a string is floating-point
  formatting.
\<close>

datatype jsval =
    Undefined
  | Null
  | Bool bool
  | Str jsstring
  | Arr "jsval list"
  | Obj "(jsstring \<times> jsval) list"

text \<open>
  What the code throws: \<open>NonFatalError\<close> of oclif-commons with its message, a plain
  \<open>Error\<close> with its message and the value of its \<open>$$bundler_fatal\<close> property
  (\<open>None\<close> when never assigned), and the \<open>TypeError\<close> of the language when an object
  cannot be converted to a primitive.
\<close>

datatype error =
    NonFatalError jsstring
  | Error jsstring "bool option"
  | TypeError

fun typeof :: "jsval \<Rightarrow> jsstring" where
  "typeof Undefined = js ''undefined''"
| "typeof Null = js ''object''"
| "typeof (Bool b) = js ''boolean''"
| "typeof (Str s) = js ''string''"
| "typeof (Arr xs) = js ''object''"
| "typeof (Obj ps) = js ''object''"

fun Array_isArray :: "jsval \<Rightarrow> bool" where
  "Array_isArray (Arr xs) = True"
| "Array_isArray v = False"

fun join_comma :: "jsstring list \<Rightarrow> jsstring" where
  "join_comma [] = []"
| "join_comma [s] = s"
| "join_comma (s # t # ts) = s @ 0x2C # join_comma (t # ts)"

text \<open>
  The conversion \<open>ToString\<close> that \<open>RegExp.prototype.exec\<close> applies to its argument;
  \<open>None\<close> is the TypeError. An array joins its elements with commas, \<open>undefined\<close> and
  \<open>null\<close> elements giving the empty string. A plain object gives \<open>[object Object]\<close>
  through \<open>Object.prototype.toString\<close>, unless an own property \<open>toString\<close> shadows it:
  no value here is callable, \<open>valueOf\<close> returns the object itself, and the conversion
  throws.
\<close>

fun ToString :: "jsval \<Rightarrow> jsstring option" where
  "ToString Undefined = Some (js ''undefined'')"
| "ToString Null = Some (js ''null'')"
| "ToString (Bool b) = Some (if b then js ''true'' else js ''false'')"
| "ToString (Str s) = Some s"
| "ToString (Arr xs) =
     map_option join_comma
       (those (map (\<lambda>x. if x = Undefined \<or> x = Null then Some [] else ToString x) xs))"
| "ToString (Obj ps) =
     (if js ''toString'' \<in> fst ` set ps then None else Some (js ''[object Object]''))"

section \<open>The pattern \<open>/(.+)=(.+)/\<close>\<close>

text \<open>
  Without the \<open>s\<close> flag a dot matches any code unit but the four line terminators.
\<close>

definition LineTerminator :: "jschar \<Rightarrow> bool" where
  "LineTerminator c \<longleftrightarrow> c = 0x000A \<or> c = 0x000D \<or> c = 0x2028 \<or> c = 0x2029"

text \<open>The most code units that \<open>.+\<close> can take at the start of \<open>s\<close>.\<close>

definition dot_max :: "jsstring \<Rightarrow> nat" where
  "dot_max s = length (takeWhile (\<lambda>c. \<not> LineTerminator c) s)"

text \<open>
  What follows the first group: the literal \<open>=\<close>, then the second group. Nothing follows
  the second group, so its greedy \<open>.+\<close> keeps all it can take, and fails on nothing.
\<close>

fun match_rest :: "jsstring \<Rightarrow> jsstring option" where
  "match_rest [] = None"
| "match_rest (c # t) =
     (if c = 0x3D \<and> 1 \<le> dot_max t then Some (take (dot_max t) t) else None)"

text \<open>
  The first group is greedy: it tries its longest extent first and gives back one code
  unit at a time, down to one, until the rest of the pattern matches.
\<close>

fun match_group1 :: "jsstring \<Rightarrow> nat \<Rightarrow> jsstring list option" where
  "match_group1 s 0 = None"
| "match_group1 s (Suc n) =
     (case match_rest (drop (Suc n) s) of
        Some m2 \<Rightarrow> Some [take (Suc n) s @ 0x3D # m2, take (Suc n) s, m2]
      | None \<Rightarrow> match_group1 s n)"

definition match_here :: "jsstring \<Rightarrow> jsstring list option" where
  "match_here s = match_group1 s (dot_max s)"

text \<open>
  \<open>regex.exec\<close> on a pattern without the \<open>g\<close> and \<open>y\<close> flags: the search starts at
  index 0 whatever \<open>lastIndex\<close> holds, and tries each start index in turn. The result
  is the array of the whole match and the two groups, or \<open>null\<close>.
\<close>

fun regex_exec :: "jsstring \<Rightarrow> jsstring list option" where
  "regex_exec [] = None"
| "regex_exec (c # cs) =
     (case match_here (c # cs) of
        Some m \<Rightarrow> Some m
      | None \<Rightarrow> regex_exec cs)"

section \<open>The flags object and the verifiers\<close>

text \<open>
  The flags object: its \<open>alias\<close> property, and whatever other flags the command has in
  the extension of the record.
\<close>

record flags =
  "alias" :: jsval

record alias_entry =
  entry_find :: jsstring
  entry_replacement :: jsstring

text \<open>The object literal \<open>{ find: matches[1], replacement: matches[2] }\<close> as a value.\<close>

definition entry_obj :: "alias_entry \<Rightarrow> jsval" where
  "entry_obj e = Obj [(js ''find'', Str (entry_find e)), (js ''replacement'', Str (entry_replacement e))]"

record verify_state =
  badEntries :: "jsval list"
  warnEntries :: "jsval list"
  entries :: "alias_entry list"

text \<open>
  \<open>entries.reduce((accum, value) => accum |= value.find === matches[1], false)\<close>: the
  accumulator is an Int32 after the first step (\<open>false\<close> counts as 0), and the result
  is tested for truth.
\<close>

definition overwrites :: "alias_entry list \<Rightarrow> jsstring \<Rightarrow> bool" where
  "overwrites es m1 \<longleftrightarrow>
     foldl (\<lambda>accum value. accum OR of_bool (entry_find value = m1)) (0 :: 32 word) es \<noteq> 0"

text \<open>The body of the callback of \<open>forEach\<close> in \<open>PluginLoader.addFlags\<close>, after the match.\<close>

definition verify_entry :: "jsstring list option \<Rightarrow> jsval \<Rightarrow> verify_state \<Rightarrow> verify_state" where
  "verify_entry matches entry st =
     (case matches of
        Some m \<Rightarrow>
          if 3 \<le> length m then
            if overwrites (entries st) (m ! 1)
            then st\<lparr>warnEntries := warnEntries st @ [entry]\<rparr>
            else st\<lparr>entries := entries st @ [\<lparr>entry_find = m ! 1, entry_replacement = m ! 2\<rparr>]\<rparr>
          else st\<lparr>badEntries := badEntries st @ [entry]\<rparr>
      | None \<Rightarrow> st\<lparr>badEntries := badEntries st @ [entry]\<rparr>)"

fun verify_forEach :: "jsval list \<Rightarrow> verify_state \<Rightarrow> error + verify_state" where
  "verify_forEach [] st = Inr st"
| "verify_forEach (entry # rest) st =
     (case ToString entry of
        None \<Rightarrow> Inl TypeError
      | Some s \<Rightarrow> verify_forEach rest (verify_entry (regex_exec s) entry st))"

definition failure_header :: jsstring where
  "failure_header = js ''plugin-alias verification failure:'' @ [0x0A]"

definition bad_text :: "jsstring \<Rightarrow> jsstring" where
  "bad_text listed =
     js ''- can not parse '' @ listed @ js '' each '' @
     js ''entry must be a '' @ [0x27] @ js ''string'' @ [0x27] @ js '' in the format of '' @
     [0x27] @ js ''<xxx>=<yyy>'' @ [0x27] @ js ''.''"

definition warn_text :: "jsstring \<Rightarrow> jsstring" where
  "warn_text listed =
     js ''- the following '' @ js ''entries overwrite previous entries '' @ listed @ js ''.''"

text \<open>
  \<open>verify\<close> of \<open>PluginLoader.addFlags\<close>. It returns what it threw, if anything, and the
  flags object as the call leaves it. \<open>JSON.stringify\<close> is a parameter.
\<close>

definition verify :: "(jsval \<Rightarrow> jsstring) \<Rightarrow> 'a flags_scheme \<Rightarrow> error option \<times> 'a flags_scheme" where
  "verify JSON_stringify fl =
     (case alias fl of
        Arr xs \<Rightarrow>
          (case verify_forEach xs \<lparr>badEntries = [], warnEntries = [], entries = []\<rparr> of
             Inl e \<Rightarrow> (Some e, fl)
           | Inr st \<Rightarrow>
               let fl' = fl\<lparr>alias := Obj [(js ''entries'', Arr (map entry_obj (entries st)))]\<rparr>;
                   errorMessage = failure_header;
                   errorMessage =
                     (if 0 < length (badEntries st)
                      then errorMessage @ bad_text (JSON_stringify (Arr (badEntries st)))
                      else errorMessage);
                   errorMessage =
                     (if 0 < length (warnEntries st)
                      then errorMessage @ (if 0 < length (badEntries st) then [0x0A] else []) @
                           warn_text (JSON_stringify (Arr (warnEntries st)))
                      else errorMessage)
               in if errorMessage \<noteq> failure_header
                  then (Some (NonFatalError errorMessage), fl')
                  else (None, fl'))
      | _ \<Rightarrow> (None, fl))"

text \<open>
  \<open>verify\<close> of the init hook (\<open>s_ADD_FLAGS\<close> in \<open>hooks/init/init.js\<close>): the same loop
  with no test against the entries accepted so far; the flag becomes the array itself.
\<close>

record init_state =
  init_badEntries :: "jsval list"
  init_entries :: "alias_entry list"

definition init_verify_entry :: "jsstring list option \<Rightarrow> jsval \<Rightarrow> init_state \<Rightarrow> init_state" where
  "init_verify_entry matches entry st =
     (case matches of
        Some m \<Rightarrow>
          if 3 \<le> length m
          then st\<lparr>init_entries := init_entries st @ [\<lparr>entry_find = m ! 1, entry_replacement = m ! 2\<rparr>]\<rparr>
          else st\<lparr>init_badEntries := init_badEntries st @ [entry]\<rparr>
      | None \<Rightarrow> st\<lparr>init_badEntries := init_badEntries st @ [entry]\<rparr>)"

fun init_verify_forEach :: "jsval list \<Rightarrow> init_state \<Rightarrow> error + init_state" where
  "init_verify_forEach [] st = Inr st"
| "init_verify_forEach (entry # rest) st =
     (case ToString entry of
        None \<Rightarrow> Inl TypeError
      | Some s \<Rightarrow> init_verify_forEach rest (init_verify_entry (regex_exec s) entry st))"

definition init_bad_text :: "jsstring \<Rightarrow> jsstring" where
  "init_bad_text listed =
     js ''plugin-alias verify; can not parse '' @ listed @ js '' each '' @
     js ''entry must be in the format of <xxx>=<yyy>.''"

definition init_verify :: "(jsval \<Rightarrow> jsstring) \<Rightarrow> 'a flags_scheme \<Rightarrow> error option \<times> 'a flags_scheme" where
  "init_verify JSON_stringify fl =
     (case alias fl of
        Arr xs \<Rightarrow>
          (case init_verify_forEach xs \<lparr>init_badEntries = [], init_entries = []\<rparr> of
             Inl e \<Rightarrow> (Some e, fl)
           | Inr st \<Rightarrow>
               let fl' = fl\<lparr>alias := Arr (map entry_obj (init_entries st))\<rparr>
               in if 0 < length (init_badEntries st)
                  then (Some (Error (init_bad_text (JSON_stringify (Arr (init_badEntries st)))) (Some False)), fl')
                  else (None, fl'))
      | _ \<Rightarrow> (None, fl))"

section \<open>The default of the flag\<close>

text \<open>
  The \<open>default\<close> function of the flag in \<open>PluginLoader.addFlags\<close>. \<open>JSON.parse\<close> is a
  parameter: it gives the decoded value, or the message of the error it throws.
  \<open>flag_env_prefix\<close> is the global \<open>$$flag_env_prefix\<close> as the template literal
  renders it, and \<open>envVars\<close> the properties of the object passed in.
\<close>

definition alias_default ::
  "(jsstring \<Rightarrow> jsstring + jsval) \<Rightarrow> jsstring \<Rightarrow> (jsstring \<rightharpoonup> jsval) \<Rightarrow> error + jsval" where
  "alias_default JSON_parse flag_env_prefix envVars =
     (let envVar = flag_env_prefix @ js ''_ALIAS'' in
      case envVars envVar of
        Some (Str text) \<Rightarrow>
          (case JSON_parse text of
             Inl message \<Rightarrow>
               Inl (NonFatalError
                 (js ''Could not parse '' @ [0x27] @ envVar @ [0x27] @ js '' as a JSON array;'' @
                  [0x0A] @ message))
           | Inr result \<Rightarrow>
               if \<not> Array_isArray result
               then Inl (NonFatalError
                 (js ''Please format '' @ [0x27] @ envVar @ [0x27] @ js '' as a JSON array.''))
               else Inr result)
      | _ \<Rightarrow> Inr Undefined)"

text \<open>The \<open>default\<close> function of the init hook reads \<open>process.env.DEPLOY_ALIAS\<close>.\<close>

definition init_alias_default ::
  "(jsstring \<Rightarrow> jsstring + jsval) \<Rightarrow> (jsstring \<rightharpoonup> jsval) \<Rightarrow> error + jsval" where
  "init_alias_default JSON_parse env =
     (case env (js ''DEPLOY_ALIAS'') of
        Some (Str text) \<Rightarrow>
          (case JSON_parse text of
             Inl message \<Rightarrow>
               Inl (Error
                 (js ''Could not parse '' @ [0x27] @ js ''DEPLOY_ALIAS'' @ [0x27] @
                  js '' as a JSON array;'' @ [0x0A] @ message) (Some False))
           | Inr result \<Rightarrow>
               if \<not> Array_isArray result
               then Inl (Error
                 (js ''Please format '' @ [0x27] @ js ''DEPLOY_ALIAS'' @ [0x27] @
                  js '' as a JSON array.'') (Some False))
               else Inr result)
      | _ \<Rightarrow> Inr Undefined)"

section \<open>The input plugin\<close>

text \<open>
  \<open>bundleData.cliFlags\<close> is \<open>None\<close> when the property is absent (the default argument
  \<open>{}\<close>) or falsy. The transform of \<open>@rollup/plugin-alias\<close> is a parameter; a call that
  falls off the end of the function returns \<open>undefined\<close>, here \<open>None\<close>.
\<close>

record bundleData =
  cliFlags :: "flags option"

definition getInputPlugin :: "(jsval \<Rightarrow> 'p) \<Rightarrow> bundleData \<Rightarrow> 'p option" where
  "getInputPlugin alias_transform bd =
     (case cliFlags bd of
        Some fl \<Rightarrow>
          if typeof (alias fl) = js ''object'' then Some (alias_transform (alias fl)) else None
      | None \<Rightarrow> None)"

section \<open>Notions used to state the properties\<close>

text \<open>The three arrays as \<open>verify\<close> creates them, and the two of the init hook.\<close>

abbreviation start :: verify_state where
  "start \<equiv> \<lparr>badEntries = [], warnEntries = [], entries = []\<rparr>"

abbreviation init_start :: init_state where
  "init_start \<equiv> \<lparr>init_badEntries = [], init_entries = []\<rparr>"

text \<open>The pair that the callback builds from a string that matches the pattern.\<close>

definition parsed :: "jsstring \<Rightarrow> alias_entry option" where
  "parsed s = map_option (\<lambda>m. \<lparr>entry_find = m ! 1, entry_replacement = m ! 2\<rparr>) (regex_exec s)"

text \<open>
  The message of \<open>verify\<close> in one piece: the header, the line of the entries that do
  not parse, a line break when both lines are there, the line of the entries that overwrite.
\<close>

definition failure_message :: "(jsval \<Rightarrow> jsstring) \<Rightarrow> jsval list \<Rightarrow> jsval list \<Rightarrow> jsstring" where
  "failure_message JSON_stringify bad warn =
     failure_header @
     (if bad \<noteq> [] then bad_text (JSON_stringify (Arr bad)) else []) @
     (if bad \<noteq> [] \<and> warn \<noteq> [] then [0x0A] else []) @
     (if warn \<noteq> [] then warn_text (JSON_stringify (Arr warn)) else [])"

text \<open>
  In the words of the specification: an entry is a duplicate when a string before it in
  the run parses to the same find, and is accepted when it parses and is no duplicate.
  \<open>before\<close> holds the strings already seen.
\<close>

definition finds_of :: "jsstring list \<Rightarrow> jsstring set" where
  "finds_of ss = set (map entry_find (List.map_filter parsed ss))"

fun duplicates_after :: "jsstring list \<Rightarrow> jsstring list \<Rightarrow> jsstring list" where
  "duplicates_after before [] = []"
| "duplicates_after before (s # ss) =
     (case parsed s of
        Some e \<Rightarrow>
          if entry_find e \<in> finds_of before
          then s # duplicates_after (before @ [s]) ss
          else duplicates_after (before @ [s]) ss
      | None \<Rightarrow> duplicates_after (before @ [s]) ss)"

fun accepted_after :: "jsstring list \<Rightarrow> jsstring list \<Rightarrow> alias_entry list" where
  "accepted_after before [] = []"
| "accepted_after before (s # ss) =
     (case parsed s of
        Some e \<Rightarrow>
          if entry_find e \<in> finds_of before
          then accepted_after (before @ [s]) ss
          else e # accepted_after (before @ [s]) ss
      | None \<Rightarrow> accepted_after (before @ [s]) ss)"

section \<open>What the pattern matches\<close>

lemma match_rest_SomeD:
  assumes "match_rest t = Some r"
  shows "\<exists>post. t = 0x3D # r @ post \<and> r \<noteq> [] \<and> (\<forall>c\<in>set r. \<not> LineTerminator c)
           \<and> (post = [] \<or> LineTerminator (hd post))"
proof (cases t)
  case Nil
  with assms show ?thesis by simp
next
  case (Cons c t')
  let ?P = "\<lambda>c. \<not> LineTerminator c"
  from assms Cons have "match_rest (c # t') = Some r" by simp
  then have c: "c = 0x3D" and d: "1 \<le> dot_max t'" and r: "r = take (dot_max t') t'"
    by (simp_all split: if_splits)
  have r': "r = takeWhile ?P t'"
    using r takeWhile_eq_take [of ?P t'] by (simp add: dot_max_def)
  have split: "t' = r @ dropWhile ?P t'"
    by (simp add: r')
  have "r \<noteq> []"
    using d r' by (auto simp: dot_max_def)
  moreover have "\<forall>c\<in>set r. ?P c"
    unfolding r' by (auto dest: set_takeWhileD)
  moreover have "dropWhile ?P t' = [] \<or> LineTerminator (hd (dropWhile ?P t'))"
    using hd_dropWhile [of ?P t'] by auto
  ultimately show ?thesis
    using Cons c split by blast
qed

lemma match_rest_SomeI:
  assumes "\<not> LineTerminator c"
  shows "\<exists>r. match_rest (0x3D # c # u) = Some r"
  using assms by (simp add: dot_max_def)

lemma match_group1_SomeD:
  "match_group1 s n = Some m \<Longrightarrow>
     \<exists>k r. 0 < k \<and> k \<le> n \<and> match_rest (drop k s) = Some r
       \<and> m = [take k s @ 0x3D # r, take k s, r]
       \<and> (\<forall>j. k < j \<and> j \<le> n \<longrightarrow> match_rest (drop j s) = None)"
proof (induction n)
  case 0
  then show ?case by simp
next
  case (Suc n)
  show ?case
  proof (cases "match_rest (drop (Suc n) s)")
    case None
    with Suc.prems have "match_group1 s n = Some m" by simp
    from Suc.IH [OF this] obtain k r where
      k: "0 < k" "k \<le> n" "match_rest (drop k s) = Some r" "m = [take k s @ 0x3D # r, take k s, r]"
      and mx: "\<forall>j. k < j \<and> j \<le> n \<longrightarrow> match_rest (drop j s) = None"
      by blast
    have "\<forall>j. k < j \<and> j \<le> Suc n \<longrightarrow> match_rest (drop j s) = None"
      using mx None by (auto simp: le_Suc_eq)
    with k show ?thesis by (metis le_Suc_eq)
  next
    case (Some r)
    with Suc.prems have "m = [take (Suc n) s @ 0x3D # r, take (Suc n) s, r]" by simp
    with Some show ?thesis by (intro exI [of _ "Suc n"] exI [of _ r]) auto
  qed
qed

lemma match_group1_None_iff:
  "match_group1 s n = None \<longleftrightarrow> (\<forall>j. 0 < j \<and> j \<le> n \<longrightarrow> match_rest (drop j s) = None)"
proof (induction n)
  case 0
  then show ?case by simp
next
  case (Suc n)
  show ?case
  proof (cases "match_rest (drop (Suc n) s)")
    case None
    then show ?thesis using Suc.IH by (auto simp: le_Suc_eq)
  next
    case (Some r)
    then show ?thesis by auto
  qed
qed

lemma equals_not_LineTerminator: "\<not> LineTerminator 0x3D"
  by (simp add: LineTerminator_def)

lemma dot_max_append:
  "\<forall>c\<in>set xs. \<not> LineTerminator c \<Longrightarrow> dot_max (xs @ ys) = length xs + dot_max ys"
  by (simp add: dot_max_def takeWhile_append2)

lemma take_dot_max:
  assumes "k \<le> dot_max s" and "c \<in> set (take k s)"
  shows "\<not> LineTerminator c"
proof -
  let ?P = "\<lambda>c. \<not> LineTerminator c"
  have "take k s = take k (take (dot_max s) s)"
    using assms(1) by (simp add: min_def)
  also have "take (dot_max s) s = takeWhile ?P s"
    using takeWhile_eq_take [of ?P s] by (simp add: dot_max_def)
  finally have "c \<in> set (takeWhile ?P s)"
    using assms(2) by (auto dest: in_set_takeD)
  then show ?thesis by (auto dest: set_takeWhileD)
qed

lemma dot_max_le_length: "dot_max s \<le> length s"
  by (simp add: dot_max_def length_takeWhile_le)

lemma in_butlast_split:
  assumes "x \<in> set (butlast r)"
  shows "\<exists>r1 u. r = r1 @ x # u \<and> u \<noteq> []"
proof -
  from assms obtain r1 r2 where b: "butlast r = r1 @ x # r2"
    by (auto dest: split_list)
  from assms have "r \<noteq> []" by auto
  then have "r = butlast r @ [last r]" by simp
  also have "\<dots> = r1 @ x # (r2 @ [last r])" by (simp only: b append_assoc append_Cons)
  finally show ?thesis by blast
qed

lemma match_here_SomeD:
  assumes "match_here s = Some m"
  shows "\<exists>f r post. s = f @ 0x3D # r @ post \<and> m = [f @ 0x3D # r, f, r] \<and> f \<noteq> [] \<and> r \<noteq> []
           \<and> (\<forall>c\<in>set (f @ r). \<not> LineTerminator c) \<and> 0x3D \<notin> set (butlast r)
           \<and> (post = [] \<or> LineTerminator (hd post))"
proof -
  from assms have "match_group1 s (dot_max s) = Some m"
    by (simp add: match_here_def)
  from match_group1_SomeD [OF this] obtain k r where
    k: "0 < k" "k \<le> dot_max s" and rest: "match_rest (drop k s) = Some r"
    and m: "m = [take k s @ 0x3D # r, take k s, r]"
    and mx: "\<forall>j. k < j \<and> j \<le> dot_max s \<longrightarrow> match_rest (drop j s) = None"
    by blast
  from match_rest_SomeD [OF rest] obtain post where
    dr: "drop k s = 0x3D # r @ post" and r: "r \<noteq> []" "\<forall>c\<in>set r. \<not> LineTerminator c"
    and post: "post = [] \<or> LineTerminator (hd post)"
    by blast
  define f where "f = take k s"
  have s: "s = f @ 0x3D # r @ post"
    using append_take_drop_id [of k s] dr by (simp add: f_def)
  have len: "length f = k"
    using k dot_max_le_length [of s] by (simp add: f_def)
  have f: "f \<noteq> []" using len k by auto
  have fP: "\<forall>c\<in>set f. \<not> LineTerminator c"
    using take_dot_max [OF k(2)] by (simp add: f_def)
  have no_eq: "0x3D \<notin> set (butlast r)"
  proof
    assume "0x3D \<in> set (butlast r)"
    from in_butlast_split [OF this] obtain r1 u where r_eq: "r = r1 @ 0x3D # u" and u: "u \<noteq> []"
      by blast
    have rP: "\<forall>c\<in>set (r1 @ 0x3D # u). \<not> LineTerminator c"
      using r(2) unfolding r_eq .
    have r1P: "\<forall>c\<in>set (f @ 0x3D # r1). \<not> LineTerminator c"
      using fP rP by auto
    define j where "j = k + 1 + length r1"
    have uP: "\<not> LineTerminator (hd u)"
      using rP u by (cases u) auto
    have s': "s = (f @ 0x3D # r1) @ 0x3D # u @ post"
      using s unfolding r_eq by simp
    have lj: "length (f @ 0x3D # r1) = j"
      using len by (simp add: j_def)
    have dj: "drop j s = 0x3D # u @ post"
      using lj by (subst s') (simp del: append_assoc append.simps)
    have "dot_max s = j + dot_max (0x3D # u @ post)"
      using dot_max_append [OF r1P, of "0x3D # u @ post"] lj s' by simp
    then have "j \<le> dot_max s" by simp
    moreover have "k < j" by (simp add: j_def)
    ultimately have none: "match_rest (drop j s) = None"
      using mx by blast
    obtain c u' where "u = c # u'" and "\<not> LineTerminator c"
      using uP u by (cases u) auto
    then have "\<exists>x. match_rest (drop j s) = Some x"
      using match_rest_SomeI [of c "u' @ post"] dj by simp
    with none show False by simp
  qed
  show ?thesis
    using s m f r fP no_eq post unfolding f_def [symmetric] by auto
qed

lemma dot_max_Cons: "\<not> LineTerminator c \<Longrightarrow> dot_max (c # cs) = Suc (dot_max cs)"
  by (simp add: dot_max_def)

lemma match_here_extend:
  assumes "\<not> LineTerminator c" and "match_here cs = Some m"
  shows "match_here (c # cs) \<noteq> None"
proof
  assume "match_here (c # cs) = None"
  then have "match_group1 (c # cs) (Suc (dot_max cs)) = None"
    by (simp only: match_here_def dot_max_Cons [OF assms(1)])
  then have none: "\<forall>j. 0 < j \<and> j \<le> Suc (dot_max cs) \<longrightarrow> match_rest (drop j (c # cs)) = None"
    by (simp only: match_group1_None_iff)
  from assms(2) have "match_group1 cs (dot_max cs) = Some m"
    by (simp add: match_here_def)
  from match_group1_SomeD [OF this] obtain k r where
    "0 < k" "k \<le> dot_max cs" "match_rest (drop k cs) = Some r"
    by blast
  moreover from none have "0 < Suc k \<and> Suc k \<le> Suc (dot_max cs) \<longrightarrow> match_rest (drop (Suc k) (c # cs)) = None"
    by (rule spec)
  ultimately show False by simp
qed

lemma regex_exec_SomeD:
  "regex_exec s = Some m \<Longrightarrow>
     \<exists>pre t. s = pre @ t \<and> match_here t = Some m \<and> (pre = [] \<or> LineTerminator (last pre))"
proof (induction s)
  case Nil
  then show ?case by simp
next
  case (Cons c cs)
  show ?case
  proof (cases "match_here (c # cs)")
    case (Some m')
    with Cons.prems have "match_here (c # cs) = Some m" by simp
    then show ?thesis by (intro exI [of _ "[]"] exI [of _ "c # cs"]) simp
  next
    case None
    with Cons.prems have "regex_exec cs = Some m" by simp
    from Cons.IH [OF this] obtain pre t where
      cs: "cs = pre @ t" and t: "match_here t = Some m" and pre: "pre = [] \<or> LineTerminator (last pre)"
      by blast
    have "LineTerminator (last (c # pre))"
    proof (cases "pre = []")
      case True
      with cs t have "match_here cs = Some m" by simp
      with None match_here_extend [of c cs m] show ?thesis using True by auto
    next
      case False
      with pre show ?thesis by simp
    qed
    with cs t show ?thesis
      by (intro exI [of _ "c # pre"] exI [of _ t]) simp
  qed
qed

lemma regex_exec_shape:
  assumes "regex_exec s = Some m"
  shows "\<exists>pre f r post. s = pre @ f @ 0x3D # r @ post \<and> m = [f @ 0x3D # r, f, r]
           \<and> f \<noteq> [] \<and> r \<noteq> [] \<and> (\<forall>c\<in>set (f @ r). \<not> LineTerminator c)
           \<and> 0x3D \<notin> set (butlast r)
           \<and> (pre = [] \<or> LineTerminator (last pre)) \<and> (post = [] \<or> LineTerminator (hd post))"
proof -
  from regex_exec_SomeD [OF assms] obtain pre t where
    "s = pre @ t" "match_here t = Some m" "pre = [] \<or> LineTerminator (last pre)"
    by blast
  moreover from match_here_SomeD [OF this(2)] obtain f r post where
    "t = f @ 0x3D # r @ post" "m = [f @ 0x3D # r, f, r]" "f \<noteq> []" "r \<noteq> []"
    "\<forall>c\<in>set (f @ r). \<not> LineTerminator c" "0x3D \<notin> set (butlast r)"
    "post = [] \<or> LineTerminator (hd post)"
    by blast
  ultimately show ?thesis by blast
qed

lemma regex_exec_triple:
  assumes "regex_exec s = Some m"
  shows "length m = 3"
  using regex_exec_shape [OF assms] by auto

section \<open>The loops of the verifiers\<close>

lemma foldl_or_bool:
  "foldl (\<lambda>accum value. accum OR of_bool (P value)) a es \<noteq> (0 :: 32 word)
     \<longleftrightarrow> a \<noteq> 0 \<or> (\<exists>v\<in>set es. P v)"
  by (induction es arbitrary: a) (auto simp: or_eq_0_iff)

lemma overwrites_iff: "overwrites es k \<longleftrightarrow> k \<in> entry_find ` set es"
  unfolding overwrites_def foldl_or_bool by auto

lemma verify_entry_no_match:
  "verify_entry None x st = st\<lparr>badEntries := badEntries st @ [x]\<rparr>"
  by (simp add: verify_entry_def)

lemma verify_entry_match:
  assumes "regex_exec s = Some m"
  shows "verify_entry (Some m) x st =
     (if m ! 1 \<in> entry_find ` set (entries st)
      then st\<lparr>warnEntries := warnEntries st @ [x]\<rparr>
      else st\<lparr>entries := entries st @ [\<lparr>entry_find = m ! 1, entry_replacement = m ! 2\<rparr>]\<rparr>)"
  using regex_exec_triple [OF assms] by (simp add: verify_entry_def overwrites_iff)

lemma verify_entry_grows:
  "prefix (entries st) (entries (verify_entry mm x st))"
  "prefix (warnEntries st) (warnEntries (verify_entry mm x st))"
  "prefix (badEntries st) (badEntries (verify_entry mm x st))"
  by (simp_all add: verify_entry_def split: option.splits)

lemma verify_entry_distinct:
  "distinct (map entry_find (entries st)) \<Longrightarrow>
   distinct (map entry_find (entries (verify_entry mm x st)))"
  by (auto simp: verify_entry_def overwrites_iff split: option.splits)

lemma verify_forEach_append:
  "verify_forEach (xs @ ys) st =
     (case verify_forEach xs st of Inl e \<Rightarrow> Inl e | Inr st' \<Rightarrow> verify_forEach ys st')"
  by (induction xs arbitrary: st) (auto split: option.splits)

lemma verify_forEach_strings:
  "\<exists>st'. verify_forEach (map Str ss) st = Inr st'"
  by (induction ss arbitrary: st) auto

lemma verify_forEach_grows:
  "verify_forEach xs st = Inr st' \<Longrightarrow>
     prefix (entries st) (entries st') \<and> prefix (warnEntries st) (warnEntries st')
     \<and> prefix (badEntries st) (badEntries st')"
proof (induction xs arbitrary: st)
  case Nil
  then show ?case by simp
next
  case (Cons x xs)
  then obtain s where s: "ToString x = Some s"
    and rest: "verify_forEach xs (verify_entry (regex_exec s) x st) = Inr st'"
    by (auto split: option.splits)
  from Cons.IH [OF rest] verify_entry_grows [of st "regex_exec s" x]
  show ?case by (meson prefix_order.trans)
qed

lemma verify_forEach_distinct:
  "verify_forEach xs st = Inr st' \<Longrightarrow> distinct (map entry_find (entries st)) \<Longrightarrow>
     distinct (map entry_find (entries st'))"
proof (induction xs arbitrary: st)
  case Nil
  then show ?case by simp
next
  case (Cons x xs)
  then obtain s where s: "ToString x = Some s"
    and rest: "verify_forEach xs (verify_entry (regex_exec s) x st) = Inr st'"
    by (auto split: option.splits)
  from Cons.IH [OF rest verify_entry_distinct [OF Cons.prems(2)]]
  show ?case .
qed

lemma bad_text_nonempty: "bad_text l \<noteq> []"
  by (simp add: bad_text_def js_def)

lemma warn_text_nonempty: "warn_text l \<noteq> []"
  by (simp add: warn_text_def js_def)

lemma verify_result:
  assumes "verify_forEach xs start = Inr st"
  shows "verify J (fl\<lparr>alias := Arr xs\<rparr>) =
     (if badEntries st = [] \<and> warnEntries st = [] then None
      else Some (NonFatalError (failure_message J (badEntries st) (warnEntries st))),
      fl\<lparr>alias := Obj [(js ''entries'', Arr (map entry_obj (entries st)))]\<rparr>)"
  using assms
  by (simp add: verify_def Let_def failure_message_def bad_text_nonempty warn_text_nonempty)

lemma verify_TypeError:
  assumes "verify_forEach xs start = Inl e"
  shows "verify J (fl\<lparr>alias := Arr xs\<rparr>) = (Some e, fl\<lparr>alias := Arr xs\<rparr>)"
  using assms by (simp add: verify_def)

lemma verify_not_array:
  assumes "\<not> Array_isArray (alias fl)"
  shows "verify J fl = (None, fl)"
  using assms by (cases "alias fl") (simp_all add: verify_def)

lemma init_verify_entry_match:
  assumes "regex_exec s = Some m"
  shows "init_verify_entry (Some m) x st =
     st\<lparr>init_entries := init_entries st @ [\<lparr>entry_find = m ! 1, entry_replacement = m ! 2\<rparr>]\<rparr>"
  using regex_exec_triple [OF assms] by (simp add: init_verify_entry_def)

lemma init_verify_forEach_strings:
  "init_verify_forEach (map Str ss) st =
     Inr \<lparr>init_badEntries = init_badEntries st @ map Str (filter (\<lambda>s. regex_exec s = None) ss),
          init_entries = init_entries st @ List.map_filter parsed ss\<rparr>"
proof (induction ss arbitrary: st)
  case Nil
  then show ?case by (simp add: map_filter_simps)
next
  case (Cons s ss)
  show ?case
  proof (cases "regex_exec s")
    case None
    then show ?thesis
      by (simp add: Cons.IH init_verify_entry_def map_filter_simps parsed_def)
  next
    case (Some m)
    then show ?thesis
      by (simp add: Cons.IH init_verify_entry_match [OF Some] map_filter_simps parsed_def)
  qed
qed

lemma init_verify_result:
  assumes "init_verify_forEach xs init_start = Inr st"
  shows "init_verify J (fl\<lparr>alias := Arr xs\<rparr>) =
     (if init_badEntries st = [] then None
      else Some (Error (init_bad_text (J (Arr (init_badEntries st)))) (Some False)),
      fl\<lparr>alias := Arr (map entry_obj (init_entries st))\<rparr>)"
  using assms by (simp add: init_verify_def Let_def)

lemma init_verify_not_array:
  assumes "\<not> Array_isArray (alias fl)"
  shows "init_verify J fl = (None, fl)"
  using assms by (cases "alias fl") (simp_all add: init_verify_def)

lemma verify_forEach_accepts_all:
  assumes "map parsed ss = map Some es"
    and "distinct (map entry_find es)"
    and "entry_find ` set (entries st) \<inter> entry_find ` set es = {}"
  shows "verify_forEach (map Str ss) st = Inr (st\<lparr>entries := entries st @ es\<rparr>)"
  using assms
proof (induction ss arbitrary: st es)
  case Nil
  then show ?case by simp
next
  case (Cons s ss)
  from Cons.prems(1) obtain e es' where es: "es = e # es'" and e: "parsed s = Some e"
    and rest: "map parsed ss = map Some es'"
    by (cases es) auto
  from e obtain m where m: "regex_exec s = Some m"
    and e_eq: "e = \<lparr>entry_find = m ! 1, entry_replacement = m ! 2\<rparr>"
    by (auto simp: parsed_def)
  have fresh: "m ! 1 \<notin> entry_find ` set (entries st)"
    using Cons.prems(3) es e_eq by auto
  let ?st1 = "st\<lparr>entries := entries st @ [e]\<rparr>"
  have step: "verify_entry (regex_exec s) (Str s) st = ?st1"
    using fresh by (simp add: m verify_entry_match [OF m] e_eq)
  have "distinct (map entry_find es')" and "entry_find ` set (entries ?st1) \<inter> entry_find ` set es' = {}"
    using Cons.prems(2,3) es by auto
  from Cons.IH [OF rest this] show ?case
    by (simp add: step es)
qed

lemma finds_of_snoc:
  "finds_of (before @ [s]) =
     (case parsed s of Some e \<Rightarrow> insert (entry_find e) (finds_of before) | None \<Rightarrow> finds_of before)"
  by (auto simp: finds_of_def map_filter_def split: option.splits)

lemma verify_forEach_strings_result:
  assumes "entry_find ` set (entries st) = finds_of before"
  shows "verify_forEach (map Str ss) st =
     Inr \<lparr>badEntries = badEntries st @ map Str (filter (\<lambda>s. regex_exec s = None) ss),
          warnEntries = warnEntries st @ map Str (duplicates_after before ss),
          entries = entries st @ accepted_after before ss\<rparr>"
  using assms
proof (induction ss arbitrary: st before)
  case Nil
  then show ?case by simp
next
  case (Cons s ss)
  show ?case
  proof (cases "regex_exec s")
    case None
    let ?st1 = "st\<lparr>badEntries := badEntries st @ [Str s]\<rparr>"
    have p: "parsed s = None" using None by (simp add: parsed_def)
    have "entry_find ` set (entries ?st1) = finds_of (before @ [s])"
      using Cons.prems by (simp add: finds_of_snoc p)
    from Cons.IH [OF this] show ?thesis
      by (simp add: None p verify_entry_no_match)
  next
    case (Some m)
    define e where "e = \<lparr>entry_find = m ! 1, entry_replacement = m ! 2\<rparr>"
    have p: "parsed s = Some e" using Some by (simp add: parsed_def e_def)
    show ?thesis
    proof (cases "m ! 1 \<in> finds_of before")
      case True
      let ?st1 = "st\<lparr>warnEntries := warnEntries st @ [Str s]\<rparr>"
      have step: "verify_entry (Some m) (Str s) st = ?st1"
        using True Cons.prems by (simp add: verify_entry_match [OF Some])
      have "entry_find ` set (entries ?st1) = finds_of (before @ [s])"
        using Cons.prems True by (auto simp: finds_of_snoc p e_def)
      from Cons.IH [OF this] show ?thesis
        using True by (simp add: Some p step e_def)
    next
      case False
      let ?st1 = "st\<lparr>entries := entries st @ [e]\<rparr>"
      have step: "verify_entry (Some m) (Str s) st = ?st1"
        using False Cons.prems by (simp add: verify_entry_match [OF Some] e_def)
      have "entry_find ` set (entries ?st1) = finds_of (before @ [s])"
        using Cons.prems by (auto simp: finds_of_snoc p e_def)
      from Cons.IH [OF this] show ?thesis
        using False by (simp add: Some p step e_def)
    qed
  qed
qed

lemma finds_of_Nil: "finds_of [] = {}"
  by (simp add: finds_of_def map_filter_simps)

lemma verify_strings:
  "verify J (fl\<lparr>alias := Arr (map Str ss)\<rparr>) =
     (if filter (\<lambda>s. regex_exec s = None) ss = [] \<and> duplicates_after [] ss = [] then None
      else Some (NonFatalError (failure_message J
             (map Str (filter (\<lambda>s. regex_exec s = None) ss)) (map Str (duplicates_after [] ss)))),
      fl\<lparr>alias := Obj [(js ''entries'', Arr (map entry_obj (accepted_after [] ss)))]\<rparr>)"
proof -
  have "verify_forEach (map Str ss) start =
     Inr \<lparr>badEntries = map Str (filter (\<lambda>s. regex_exec s = None) ss),
          warnEntries = map Str (duplicates_after [] ss),
          entries = accepted_after [] ss\<rparr>"
    using verify_forEach_strings_result [of start "[]" ss] by (simp add: finds_of_Nil)
  from verify_result [OF this, of J fl] show ?thesis by simp
qed

lemma init_verify_strings:
  "init_verify J (fl\<lparr>alias := Arr (map Str ss)\<rparr>) =
     (if filter (\<lambda>s. regex_exec s = None) ss = [] then None
      else Some (Error (init_bad_text (J (Arr (map Str (filter (\<lambda>s. regex_exec s = None) ss)))))
                   (Some False)),
      fl\<lparr>alias := Arr (map entry_obj (List.map_filter parsed ss))\<rparr>)"
proof -
  have "init_verify_forEach (map Str ss) init_start =
     Inr \<lparr>init_badEntries = map Str (filter (\<lambda>s. regex_exec s = None) ss),
          init_entries = List.map_filter parsed ss\<rparr>"
    using init_verify_forEach_strings [of ss init_start] by simp
  from init_verify_result [OF this, of J fl] show ?thesis by simp
qed

lemma verify_forEach_error:
  "verify_forEach xs st = Inl e \<Longrightarrow> e = TypeError"
  by (induction xs arbitrary: st) (auto split: option.splits)

lemma init_verify_forEach_error:
  "init_verify_forEach xs st = Inl e \<Longrightarrow> e = TypeError"
  by (induction xs arbitrary: st) (auto split: option.splits)

lemma init_verify_forEach_length:
  "init_verify_forEach xs st = Inr st' \<Longrightarrow>
     length (init_entries st') + length (init_badEntries st') =
     length (init_entries st) + length (init_badEntries st) + length xs"
proof (induction xs arbitrary: st)
  case Nil
  then show ?case by simp
next
  case (Cons x xs)
  then obtain s where s: "ToString x = Some s"
    and rest: "init_verify_forEach xs (init_verify_entry (regex_exec s) x st) = Inr st'"
    by (auto split: option.splits)
  let ?st1 = "init_verify_entry (regex_exec s) x st"
  have "length (init_entries ?st1) + length (init_badEntries ?st1) =
      Suc (length (init_entries st) + length (init_badEntries st))"
    by (simp add: init_verify_entry_def split: option.splits)
  with Cons.IH [OF rest] show ?case by simp
qed

section \<open>The properties\<close>

subsection \<open>C1: where a string with several equals signs is split\<close>




subsection \<open>C2: an entry whose find is already accepted\<close>

text \<open>
  C2, as the specification states it, speaks of every validator of the repository: a string
  whose find is that of an accepted entry is not appended, and \<open>["a=1", "a=2"]\<close> leaves
  the one entry \<open>{find: "a", replacement: "1"}\<close>. The verifier of the init hook has no
  such test: it accepts both entries and throws nothing.
\<close>

theorem init_hook_appends_duplicate_counterexample:
  "init_verify (\<lambda>v. []) \<lparr>alias = Arr [Str (js ''a=1''), Str (js ''a=2'')]\<rparr> =
     (None, \<lparr>alias = Arr [entry_obj \<lparr>entry_find = js ''a'', entry_replacement = js ''1''\<rparr>,
                         entry_obj \<lparr>entry_find = js ''a'', entry_replacement = js ''2''\<rparr>]\<rparr>)"
  by code_simp

text \<open>
  C2, amended: in \<open>verify\<close> of \<open>PluginLoader.addFlags\<close>, when the strings \<open>ss\<close>
  have been processed and the next string \<open>s\<close> parses to the find of an entry \<open>e\<close>
  already accepted, then \<open>s\<close> is not appended to the accepted entries and is pushed, as
  it stands, to the entries that overwrite. Whatever strings \<open>rest\<close> follow, \<open>e\<close> stays
  the only accepted entry with that find to the end of the run (so its replacement is the
  one retained), \<open>s\<close> stays recorded, and the call throws the \<open>NonFatalError\<close> that
  lists the recorded entries, after it has stored the accepted ones in the flag. The
  verifier of the init hook makes no such test: from any state it appends the pair of
  every string that matches.
\<close>

theorem duplicate_find_is_recorded:
  assumes "verify_forEach (map Str ss) start = Inr st"
    and "regex_exec s = Some m"
    and "e \<in> set (entries st)"
    and "entry_find e = m ! 1"
  shows "\<exists>st1 stF.
      verify_forEach (map Str (ss @ [s])) start = Inr st1
    \<and> entries st1 = entries st \<and> warnEntries st1 = warnEntries st @ [Str s]
    \<and> badEntries st1 = badEntries st
    \<and> verify_forEach (map Str (ss @ s # rest)) start = Inr stF
    \<and> e \<in> set (entries stF)
    \<and> (\<forall>e'\<in>set (entries stF). entry_find e' = entry_find e \<longrightarrow> e' = e)
    \<and> Str s \<in> set (warnEntries stF)
    \<and> verify J (fl\<lparr>alias := Arr (map Str (ss @ s # rest))\<rparr>) =
        (Some (NonFatalError (failure_message J (badEntries stF) (warnEntries stF))),
         fl\<lparr>alias := Obj [(js ''entries'', Arr (map entry_obj (entries stF)))]\<rparr>)
    \<and> (\<forall>ist. init_verify_forEach [Str s] ist =
          Inr (ist\<lparr>init_entries := init_entries ist @
                 [\<lparr>entry_find = m ! 1, entry_replacement = m ! 2\<rparr>]\<rparr>))"
proof -
  let ?st1 = "st\<lparr>warnEntries := warnEntries st @ [Str s]\<rparr>"
  have step: "verify_entry (Some m) (Str s) st = ?st1"
    using assms(3,4) by (simp add: verify_entry_match [OF assms(2)] image_iff) metis
  have one: "verify_forEach (map Str (ss @ [s])) start = Inr ?st1"
    by (simp add: verify_forEach_append assms(1,2) step)
  obtain stF where rest: "verify_forEach (map Str rest) ?st1 = Inr stF"
    using verify_forEach_strings by blast
  have all: "verify_forEach (map Str (ss @ s # rest)) start = Inr stF"
    using verify_forEach_append [of "map Str (ss @ [s])" "map Str rest" start] one rest by simp
  from verify_forEach_grows [OF rest]
  have grows: "prefix (entries st) (entries stF)" "prefix (warnEntries st @ [Str s]) (warnEntries stF)"
    by simp_all
  have e_in: "e \<in> set (entries stF)"
    using grows(1) assms(3) by (auto simp: prefix_def)
  have s_in: "Str s \<in> set (warnEntries stF)"
    using grows(2) by (auto simp: prefix_def)
  have "distinct (map entry_find (entries stF))"
    using verify_forEach_distinct [OF all] by simp
  then have "inj_on entry_find (set (entries stF))"
    by (simp add: distinct_map)
  then have only: "\<forall>e'\<in>set (entries stF). entry_find e' = entry_find e \<longrightarrow> e' = e"
    using e_in by (auto dest: inj_onD)
  have thrown: "verify J (fl\<lparr>alias := Arr (map Str (ss @ s # rest))\<rparr>) =
        (Some (NonFatalError (failure_message J (badEntries stF) (warnEntries stF))),
         fl\<lparr>alias := Obj [(js ''entries'', Arr (map entry_obj (entries stF)))]\<rparr>)"
    using verify_result [OF all, of J fl] s_in by auto
  have init: "\<forall>ist. init_verify_forEach [Str s] ist =
          Inr (ist\<lparr>init_entries := init_entries ist @
                 [\<lparr>entry_find = m ! 1, entry_replacement = m ! 2\<rparr>]\<rparr>)"
    by (simp add: assms(2) init_verify_entry_match [OF assms(2)])
  show ?thesis
    using one all e_in only s_in thrown init
    by (intro exI [of _ ?st1] exI [of _ stF]) simp
qed

text \<open>The run on \<open>["a=1", "a=2"]\<close>: one accepted entry, and \<open>"a=2"\<close> recorded.\<close>

theorem duplicate_find_is_recorded_witness:
  "verify_forEach (map Str [js ''a=1'']) start =
     Inr \<lparr>badEntries = [], warnEntries = [],
          entries = [\<lparr>entry_find = js ''a'', entry_replacement = js ''1''\<rparr>]\<rparr>
   \<and> regex_exec (js ''a=2'') = Some [js ''a=2'', js ''a'', js ''2'']
   \<and> (\<exists>stF.
        verify_forEach (map Str ([js ''a=1''] @ js ''a=2'' # [])) start = Inr stF
      \<and> entries stF = [\<lparr>entry_find = js ''a'', entry_replacement = js ''1''\<rparr>]
      \<and> warnEntries stF = [Str (js ''a=2'')]
      \<and> verify (\<lambda>v. []) (\<lparr>alias = Undefined\<rparr>\<lparr>alias := Arr (map Str ([js ''a=1''] @ js ''a=2'' # []))\<rparr>) =
          (Some (NonFatalError (failure_message (\<lambda>v. []) (badEntries stF) (warnEntries stF))),
           \<lparr>alias = Undefined\<rparr>\<lparr>alias := Obj [(js ''entries'', Arr (map entry_obj (entries stF)))]\<rparr>))"
proof -
  let ?e = "\<lparr>entry_find = js ''a'', entry_replacement = js ''1''\<rparr>"
  let ?st = "\<lparr>badEntries = [], warnEntries = [], entries = [?e]\<rparr>"
  let ?m = "[js ''a=2'', js ''a'', js ''2'']"
  have h1: "verify_forEach (map Str [js ''a=1'']) start = Inr ?st"
    by code_simp
  have h2: "regex_exec (js ''a=2'') = Some ?m"
    by code_simp
  have h3: "?e \<in> set (entries ?st)" by simp
  have h4: "entry_find ?e = ?m ! 1" by simp
  from duplicate_find_is_recorded [OF h1 h2 h3 h4, of "[]" "\<lambda>v. []" "\<lparr>alias = Undefined\<rparr>"]
  obtain st1 stF where
    r: "verify_forEach (map Str ([js ''a=1''] @ [js ''a=2''])) start = Inr st1"
       "entries st1 = entries ?st" "warnEntries st1 = warnEntries ?st @ [Str (js ''a=2'')]"
       "verify_forEach (map Str ([js ''a=1''] @ js ''a=2'' # [])) start = Inr stF"
       "verify (\<lambda>v. []) (\<lparr>alias = Undefined\<rparr>\<lparr>alias := Arr (map Str ([js ''a=1''] @ js ''a=2'' # []))\<rparr>) =
          (Some (NonFatalError (failure_message (\<lambda>v. []) (badEntries stF) (warnEntries stF))),
           \<lparr>alias = Undefined\<rparr>\<lparr>alias := Obj [(js ''entries'', Arr (map entry_obj (entries stF)))]\<rparr>)"
    by blast
  from r(1,4) have "stF = st1" by simp
  with r h1 h2 show ?thesis by simp
qed

subsection \<open>C3: when verification fails, and what the message lists\<close>

text \<open>
  C3, as the specification states it, has every validator fail as soon as the run holds a
  duplicate entry. On \<open>["a=1", "a=2"]\<close> the second string is a duplicate, and the
  verifier of the init hook throws nothing.
\<close>

theorem init_hook_ignores_duplicates_counterexample:
  "duplicates_after [] [js ''a=1'', js ''a=2''] = [js ''a=2'']
   \<and> fst (init_verify (\<lambda>v. []) \<lparr>alias = Arr (map Str [js ''a=1'', js ''a=2''])\<rparr>) = None"
  by code_simp

text \<open>
  C3, amended: on an array of strings, \<open>verify\<close> of \<open>PluginLoader.addFlags\<close> throws if
  and only if at least one string does not match the pattern or at least one is a
  duplicate; what it throws is a \<open>NonFatalError\<close> whose message is the header, then the
  line with \<open>JSON.stringify\<close> of the array of the strings that do not match, in input
  order, when there are any, then a line break when both kinds occur, then the line with
  \<open>JSON.stringify\<close> of the array of the duplicates, in input order, when there are any.
  The verifier of the init hook throws if and only if at least one string does not match:
  an \<open>Error\<close> whose \<open>$$bundler_fatal\<close> is \<open>false\<close> and whose message lists those strings
  alone; it detects no duplicate.
\<close>

theorem verification_error_lists_entries:
  "(let bad = filter (\<lambda>s. regex_exec s = None) ss; dup = duplicates_after [] ss in
     verify J (fl\<lparr>alias := Arr (map Str ss)\<rparr>) =
       (if bad = [] \<and> dup = [] then None
        else Some (NonFatalError (failure_message J (map Str bad) (map Str dup))),
        fl\<lparr>alias := Obj [(js ''entries'', Arr (map entry_obj (accepted_after [] ss)))]\<rparr>)
   \<and> ((fst (verify J (fl\<lparr>alias := Arr (map Str ss)\<rparr>)) \<noteq> None) = (bad \<noteq> [] \<or> dup \<noteq> []))
   \<and> init_verify J (fl\<lparr>alias := Arr (map Str ss)\<rparr>) =
       (if bad = [] then None
        else Some (Error (init_bad_text (J (Arr (map Str bad)))) (Some False)),
        fl\<lparr>alias := Arr (map entry_obj (List.map_filter parsed ss))\<rparr>)
   \<and> ((fst (init_verify J (fl\<lparr>alias := Arr (map Str ss)\<rparr>)) \<noteq> None) = (bad \<noteq> [])))"
  by (simp add: Let_def verify_strings init_verify_strings)

text \<open>The run on \<open>["x=y", "not-valid", "x=z"]\<close>, where both kinds occur.\<close>

theorem verification_error_lists_entries_witness:
  "verify (\<lambda>v. []) (\<lparr>alias = Undefined\<rparr>\<lparr>alias := Arr (map Str [js ''x=y'', js ''not-valid'', js ''x=z''])\<rparr>) =
     (Some (NonFatalError (failure_message (\<lambda>v. []) [Str (js ''not-valid'')] [Str (js ''x=z'')])),
      \<lparr>alias = Undefined\<rparr>\<lparr>alias := Obj [(js ''entries'',
          Arr [entry_obj \<lparr>entry_find = js ''x'', entry_replacement = js ''y''\<rparr>])]\<rparr>)
   \<and> init_verify (\<lambda>v. []) (\<lparr>alias = Undefined\<rparr>\<lparr>alias := Arr (map Str [js ''x=y'', js ''not-valid'', js ''x=z''])\<rparr>) =
     (Some (Error (init_bad_text []) (Some False)),
      \<lparr>alias = Undefined\<rparr>\<lparr>alias := Arr [entry_obj \<lparr>entry_find = js ''x'', entry_replacement = js ''y''\<rparr>,
                   entry_obj \<lparr>entry_find = js ''x'', entry_replacement = js ''z''\<rparr>]\<rparr>)"
proof -
  let ?ss = "[js ''x=y'', js ''not-valid'', js ''x=z'']"
  have bad: "filter (\<lambda>s. regex_exec s = None) ?ss = [js ''not-valid'']"
    by code_simp
  have dup: "duplicates_after [] ?ss = [js ''x=z'']"
    by code_simp
  have acc: "accepted_after [] ?ss = [\<lparr>entry_find = js ''x'', entry_replacement = js ''y''\<rparr>]"
    by code_simp
  have all: "List.map_filter parsed ?ss =
      [\<lparr>entry_find = js ''x'', entry_replacement = js ''y''\<rparr>,
       \<lparr>entry_find = js ''x'', entry_replacement = js ''z''\<rparr>]"
    by code_simp
  show ?thesis
    using verification_error_lists_entries [of ?ss "\<lambda>v. []" "\<lparr>alias = Undefined\<rparr>"]
    unfolding Let_def bad dup acc all by simp
qed

subsection \<open>C4: the default read from the environment\<close>

text \<open>
  C4: when the variable \<open><PREFIX>_ALIAS\<close> holds a string, the default parses it as JSON.
  If the parser throws, the default throws a non-fatal error whose message names the
  variable and ends with the message of the parser; if the value decoded is not an array,
  it throws a non-fatal error whose message names the variable; if it is an array, that
  array is returned. If the variable is not set, the default is \<open>undefined\<close>. The default
  of \<open>PluginLoader.addFlags\<close> throws a \<open>NonFatalError\<close>; that of the init hook, where the
  name is \<open>DEPLOY_ALIAS\<close>, throws an \<open>Error\<close> whose \<open>$$bundler_fatal\<close> is \<open>false\<close>.
\<close>

theorem env_default_resolution:
  "(envVars (flag_env_prefix @ js ''_ALIAS'') = Some (Str text) \<and> JSON_parse text = Inl message \<longrightarrow>
      alias_default JSON_parse flag_env_prefix envVars =
        Inl (NonFatalError (js ''Could not parse '' @ [0x27] @ (flag_env_prefix @ js ''_ALIAS'') @ [0x27] @
              js '' as a JSON array;'' @ [0x0A] @ message))
      \<and> sublist (flag_env_prefix @ js ''_ALIAS'')
           (js ''Could not parse '' @ [0x27] @ (flag_env_prefix @ js ''_ALIAS'') @ [0x27] @
              js '' as a JSON array;'' @ [0x0A] @ message)
      \<and> suffix message
           (js ''Could not parse '' @ [0x27] @ (flag_env_prefix @ js ''_ALIAS'') @ [0x27] @
              js '' as a JSON array;'' @ [0x0A] @ message))
   \<and> (envVars (flag_env_prefix @ js ''_ALIAS'') = Some (Str text) \<and> JSON_parse text = Inr result
        \<and> \<not> Array_isArray result \<longrightarrow>
      alias_default JSON_parse flag_env_prefix envVars =
        Inl (NonFatalError (js ''Please format '' @ [0x27] @ (flag_env_prefix @ js ''_ALIAS'') @ [0x27] @
              js '' as a JSON array.''))
      \<and> sublist (flag_env_prefix @ js ''_ALIAS'')
           (js ''Please format '' @ [0x27] @ (flag_env_prefix @ js ''_ALIAS'') @ [0x27] @
              js '' as a JSON array.''))
   \<and> (envVars (flag_env_prefix @ js ''_ALIAS'') = Some (Str text) \<and> JSON_parse text = Inr result
        \<and> Array_isArray result \<longrightarrow>
      alias_default JSON_parse flag_env_prefix envVars = Inr result)
   \<and> (envVars (flag_env_prefix @ js ''_ALIAS'') = None \<longrightarrow>
      alias_default JSON_parse flag_env_prefix envVars = Inr Undefined)
   \<and> (env (js ''DEPLOY_ALIAS'') = Some (Str text) \<and> JSON_parse text = Inl message \<longrightarrow>
      init_alias_default JSON_parse env =
        Inl (Error (js ''Could not parse '' @ [0x27] @ js ''DEPLOY_ALIAS'' @ [0x27] @
              js '' as a JSON array;'' @ [0x0A] @ message) (Some False))
      \<and> sublist (js ''DEPLOY_ALIAS'')
           (js ''Could not parse '' @ [0x27] @ js ''DEPLOY_ALIAS'' @ [0x27] @
              js '' as a JSON array;'' @ [0x0A] @ message)
      \<and> suffix message
           (js ''Could not parse '' @ [0x27] @ js ''DEPLOY_ALIAS'' @ [0x27] @
              js '' as a JSON array;'' @ [0x0A] @ message))
   \<and> (env (js ''DEPLOY_ALIAS'') = Some (Str text) \<and> JSON_parse text = Inr result
        \<and> \<not> Array_isArray result \<longrightarrow>
      init_alias_default JSON_parse env =
        Inl (Error (js ''Please format '' @ [0x27] @ js ''DEPLOY_ALIAS'' @ [0x27] @
              js '' as a JSON array.'') (Some False))
      \<and> sublist (js ''DEPLOY_ALIAS'')
           (js ''Please format '' @ [0x27] @ js ''DEPLOY_ALIAS'' @ [0x27] @
              js '' as a JSON array.''))
   \<and> (env (js ''DEPLOY_ALIAS'') = Some (Str text) \<and> JSON_parse text = Inr result
        \<and> Array_isArray result \<longrightarrow>
      init_alias_default JSON_parse env = Inr result)
   \<and> (env (js ''DEPLOY_ALIAS'') = None \<longrightarrow>
      init_alias_default JSON_parse env = Inr Undefined)"
proof -
  have mid: "\<And>a b (v :: jsstring). sublist v (a @ [0x27] @ v @ [0x27] @ b)"
    by (metis sublist_appendI append.assoc)
  have suf: "\<And>a b c d e (m :: jsstring). suffix m (a @ b @ c @ d @ e @ [0x0A] @ m)"
    by (metis suffix_appendI suffix_order.refl append.assoc)
  show ?thesis
    by (simp add: alias_default_def init_alias_default_def Let_def mid suf del: append_assoc append.simps)
qed

text \<open>
  The four cases of each default, with a parser that knows the texts \<open>[]\<close> and \<open>{}\<close>
  and rejects any other.
\<close>

theorem env_default_resolution_witness:
  "alias_default (\<lambda>t. if t = js ''[]'' then Inr (Arr []) else if t = js ''{}'' then Inr (Obj []) else Inl (js ''Unexpected token''))
      (js ''DEPLOY'') [js ''DEPLOY_ALIAS'' \<mapsto> Str (js ''not json'')] =
     Inl (NonFatalError (js ''Could not parse '' @ [0x27] @ (js ''DEPLOY'' @ js ''_ALIAS'') @ [0x27] @
              js '' as a JSON array;'' @ [0x0A] @ js ''Unexpected token''))
   \<and> alias_default (\<lambda>t. if t = js ''[]'' then Inr (Arr []) else if t = js ''{}'' then Inr (Obj []) else Inl (js ''Unexpected token''))
      (js ''DEPLOY'') [js ''DEPLOY_ALIAS'' \<mapsto> Str (js ''{}'')] =
     Inl (NonFatalError (js ''Please format '' @ [0x27] @ (js ''DEPLOY'' @ js ''_ALIAS'') @ [0x27] @
              js '' as a JSON array.''))
   \<and> alias_default (\<lambda>t. if t = js ''[]'' then Inr (Arr []) else if t = js ''{}'' then Inr (Obj []) else Inl (js ''Unexpected token''))
      (js ''DEPLOY'') [js ''DEPLOY_ALIAS'' \<mapsto> Str (js ''[]'')] = Inr (Arr [])
   \<and> alias_default (\<lambda>t. if t = js ''[]'' then Inr (Arr []) else if t = js ''{}'' then Inr (Obj []) else Inl (js ''Unexpected token''))
      (js ''DEPLOY'') Map.empty = Inr Undefined
   \<and> init_alias_default (\<lambda>t. if t = js ''[]'' then Inr (Arr []) else if t = js ''{}'' then Inr (Obj []) else Inl (js ''Unexpected token''))
      [js ''DEPLOY_ALIAS'' \<mapsto> Str (js ''not json'')] =
     Inl (Error (js ''Could not parse '' @ [0x27] @ js ''DEPLOY_ALIAS'' @ [0x27] @
              js '' as a JSON array;'' @ [0x0A] @ js ''Unexpected token'') (Some False))
   \<and> init_alias_default (\<lambda>t. if t = js ''[]'' then Inr (Arr []) else if t = js ''{}'' then Inr (Obj []) else Inl (js ''Unexpected token''))
      [js ''DEPLOY_ALIAS'' \<mapsto> Str (js ''{}'')] =
     Inl (Error (js ''Please format '' @ [0x27] @ js ''DEPLOY_ALIAS'' @ [0x27] @
              js '' as a JSON array.'') (Some False))
   \<and> init_alias_default (\<lambda>t. if t = js ''[]'' then Inr (Arr []) else if t = js ''{}'' then Inr (Obj []) else Inl (js ''Unexpected token''))
      [js ''DEPLOY_ALIAS'' \<mapsto> Str (js ''[]'')] = Inr (Arr [])
   \<and> init_alias_default (\<lambda>t. if t = js ''[]'' then Inr (Arr []) else if t = js ''{}'' then Inr (Obj []) else Inl (js ''Unexpected token''))
      Map.empty = Inr Undefined"
proof -
  let ?P = "\<lambda>t. if t = js ''[]'' then Inr (Arr []) else if t = js ''{}'' then Inr (Obj []) else Inl (js ''Unexpected token'')"
  let ?bad = "[js ''DEPLOY_ALIAS'' \<mapsto> Str (js ''not json'')]"
  let ?obj = "[js ''DEPLOY_ALIAS'' \<mapsto> Str (js ''{}'')]"
  let ?arr = "[js ''DEPLOY_ALIAS'' \<mapsto> Str (js ''[]'')]"
  have name: "js ''DEPLOY'' @ js ''_ALIAS'' = js ''DEPLOY_ALIAS''"
    by (simp add: js_def)
  have p1: "?P (js ''not json'') = Inl (js ''Unexpected token'')"
    and p2: "?P (js ''{}'') = Inr (Obj [])" and p3: "?P (js ''[]'') = Inr (Arr [])"
    by (simp_all add: js_def)
  have e1: "?bad (js ''DEPLOY'' @ js ''_ALIAS'') = Some (Str (js ''not json''))"
    and e2: "?obj (js ''DEPLOY'' @ js ''_ALIAS'') = Some (Str (js ''{}''))"
    and e3: "?arr (js ''DEPLOY'' @ js ''_ALIAS'') = Some (Str (js ''[]''))"
    and e4: "(Map.empty :: jsstring \<rightharpoonup> jsval) (js ''DEPLOY'' @ js ''_ALIAS'') = None"
    by (simp_all add: name)
  have i1: "?bad (js ''DEPLOY_ALIAS'') = Some (Str (js ''not json''))"
    and i2: "?obj (js ''DEPLOY_ALIAS'') = Some (Str (js ''{}''))"
    and i3: "?arr (js ''DEPLOY_ALIAS'') = Some (Str (js ''[]''))"
    and i4: "(Map.empty :: jsstring \<rightharpoonup> jsval) (js ''DEPLOY_ALIAS'') = None"
    by simp_all
  have a1: "\<not> Array_isArray (Obj [])" and a2: "Array_isArray (Arr [])"
    by simp_all
  note tb = env_default_resolution [of ?bad "js ''DEPLOY''" "js ''not json''" ?P _ _ ?bad]
  note tobj = env_default_resolution [of ?obj "js ''DEPLOY''" "js ''{}''" ?P _ _ ?obj]
  note ta = env_default_resolution [of ?arr "js ''DEPLOY''" "js ''[]''" ?P _ _ ?arr]
  note tn = env_default_resolution [of Map.empty "js ''DEPLOY''" _ ?P _ _ Map.empty]
  note c1 = tb [THEN conjunct1, THEN mp, OF conjI [OF e1 p1], THEN conjunct1]
  note c2 = tobj [THEN conjunct2, THEN conjunct1, THEN mp, OF conjI [OF e2 conjI [OF p2 a1]], THEN conjunct1]
  note c3 = ta [THEN conjunct2, THEN conjunct2, THEN conjunct1, THEN mp, OF conjI [OF e3 conjI [OF p3 a2]]]
  note c4 = tn [THEN conjunct2, THEN conjunct2, THEN conjunct2, THEN conjunct1, THEN mp, OF e4]
  note c5 = tb [THEN conjunct2, THEN conjunct2, THEN conjunct2, THEN conjunct2, THEN conjunct1, THEN mp, OF conjI [OF i1 p1], THEN conjunct1]
  note c6 = tobj [THEN conjunct2, THEN conjunct2, THEN conjunct2, THEN conjunct2, THEN conjunct2, THEN conjunct1, THEN mp, OF conjI [OF i2 conjI [OF p2 a1]], THEN conjunct1]
  note c7 = ta [THEN conjunct2, THEN conjunct2, THEN conjunct2, THEN conjunct2, THEN conjunct2, THEN conjunct2, THEN conjunct1, THEN mp, OF conjI [OF i3 conjI [OF p3 a2]]]
  note c8 = tn [THEN conjunct2, THEN conjunct2, THEN conjunct2, THEN conjunct2, THEN conjunct2, THEN conjunct2, THEN conjunct2, THEN mp, OF i4]
  show ?thesis
    by (rule conjI [OF c1 conjI [OF c2 conjI [OF c3 conjI [OF c4 conjI [OF c5 conjI [OF c6 conjI [OF c7 c8]]]]]]])
qed

subsection \<open>C5: well-formed strings with distinct finds\<close>

text \<open>
  C5: for every array of strings that all match the pattern, and whose finds are pairwise
  distinct, \<open>verify\<close> throws nothing and stores the object whose \<open>entries\<close> are the
  parsed pairs, in input order. The empty array is one of them.
\<close>

theorem unique_well_formed_accepted:
  assumes "map parsed ss = map Some es"
    and "distinct (map entry_find es)"
  shows "verify J (fl\<lparr>alias := Arr (map Str ss)\<rparr>) =
     (None, fl\<lparr>alias := Obj [(js ''entries'', Arr (map entry_obj es))]\<rparr>)"
proof -
  have "verify_forEach (map Str ss) start = Inr (start\<lparr>entries := entries start @ es\<rparr>)"
    using verify_forEach_accepts_all [OF assms, of start] by simp
  from verify_result [OF this, of J fl] show ?thesis by simp
qed

text \<open>The runs on \<open>["a=b", "c=d"]\<close> and on the empty array.\<close>

theorem unique_well_formed_accepted_witness:
  "map parsed [js ''a=b'', js ''c=d''] =
     map Some [\<lparr>entry_find = js ''a'', entry_replacement = js ''b''\<rparr>,
               \<lparr>entry_find = js ''c'', entry_replacement = js ''d''\<rparr>]
   \<and> distinct (map entry_find [\<lparr>entry_find = js ''a'', entry_replacement = js ''b''\<rparr>,
               \<lparr>entry_find = js ''c'', entry_replacement = js ''d''\<rparr>])
   \<and> verify (\<lambda>v. []) (\<lparr>alias = Undefined\<rparr>\<lparr>alias := Arr (map Str [js ''a=b'', js ''c=d''])\<rparr>) =
       (None, \<lparr>alias = Undefined\<rparr>\<lparr>alias := Obj [(js ''entries'',
          Arr (map entry_obj [\<lparr>entry_find = js ''a'', entry_replacement = js ''b''\<rparr>,
               \<lparr>entry_find = js ''c'', entry_replacement = js ''d''\<rparr>]))]\<rparr>)
   \<and> verify (\<lambda>v. []) (\<lparr>alias = Undefined\<rparr>\<lparr>alias := Arr (map Str [])\<rparr>) =
       (None, \<lparr>alias = Undefined\<rparr>\<lparr>alias := Obj [(js ''entries'', Arr (map entry_obj []))]\<rparr>)"
proof -
  let ?es = "[\<lparr>entry_find = js ''a'', entry_replacement = js ''b''\<rparr>,
               \<lparr>entry_find = js ''c'', entry_replacement = js ''d''\<rparr>]"
  have h1: "map parsed [js ''a=b'', js ''c=d''] = map Some ?es"
    by code_simp
  have h2: "distinct (map entry_find ?es)"
    by code_simp
  have e1: "map parsed [] = map Some ([] :: alias_entry list)" by simp
  have e2: "distinct (map entry_find [])" by simp
  show ?thesis
    using unique_well_formed_accepted [OF h1 h2, of "\<lambda>v. []" "\<lparr>alias = Undefined\<rparr>"]
      unique_well_formed_accepted [OF e1 e2, of "\<lambda>v. []" "\<lparr>alias = Undefined\<rparr>"] h1 h2
    by blast
qed

subsection \<open>C6: the finds of a stored configuration are distinct\<close>

text \<open>
  C6: whenever \<open>verify\<close> of \<open>PluginLoader.addFlags\<close> gets an array and its loop runs to
  the end (no entry makes the conversion to a string throw), the flag holds an object
  \<open>{ entries }\<close> whose finds are pairwise distinct; that is so whether the call then
  throws its \<open>NonFatalError\<close> or returns.
\<close>

theorem accepted_finds_distinct:
  assumes "verify J fl = (r, fl')"
    and "Array_isArray (alias fl)"
    and "r \<noteq> Some TypeError"
  shows "\<exists>es. alias fl' = Obj [(js ''entries'', Arr (map entry_obj es))]
           \<and> distinct (map entry_find es)"
proof -
  from assms(2) obtain xs where xs: "alias fl = Arr xs"
    by (cases "alias fl") simp_all
  then have fl: "fl = fl\<lparr>alias := Arr xs\<rparr>" by simp
  show ?thesis
  proof (cases "verify_forEach xs start")
    case (Inl e)
    with verify_forEach_error [OF Inl] verify_TypeError [OF Inl, of J fl] assms(1,3) fl
    show ?thesis by simp
  next
    case (Inr st)
    have "distinct (map entry_find (entries st))"
      using verify_forEach_distinct [OF Inr] by simp
    moreover have "alias fl' = Obj [(js ''entries'', Arr (map entry_obj (entries st)))]"
      using verify_result [OF Inr, of J fl] assms(1) fl by (metis snd_conv flags.select_convs(1) flags.update_convs(1) flags.surjective)
    ultimately show ?thesis by blast
  qed
qed

text \<open>The run on \<open>["a=1", "b=2", "a=3"]\<close>.\<close>

theorem accepted_finds_distinct_witness:
  "verify (\<lambda>v. []) \<lparr>alias = Arr [Str (js ''a=1''), Str (js ''b=2''), Str (js ''a=3'')]\<rparr> =
     (Some (NonFatalError (failure_message (\<lambda>v. []) [] [Str (js ''a=3'')])),
      \<lparr>alias = Obj [(js ''entries'',
          Arr (map entry_obj [\<lparr>entry_find = js ''a'', entry_replacement = js ''1''\<rparr>,
                              \<lparr>entry_find = js ''b'', entry_replacement = js ''2''\<rparr>]))]\<rparr>)
   \<and> Array_isArray (alias \<lparr>alias = Arr [Str (js ''a=1''), Str (js ''b=2''), Str (js ''a=3'')]\<rparr>)
   \<and> Some (NonFatalError (failure_message (\<lambda>v. []) [] [Str (js ''a=3'')])) \<noteq> Some TypeError
   \<and> (\<exists>es. alias \<lparr>alias = Obj [(js ''entries'',
          Arr (map entry_obj [\<lparr>entry_find = js ''a'', entry_replacement = js ''1''\<rparr>,
                              \<lparr>entry_find = js ''b'', entry_replacement = js ''2''\<rparr>]))]\<rparr> =
            Obj [(js ''entries'', Arr (map entry_obj es))]
          \<and> distinct (map entry_find es))"
proof -
  have h1: "verify (\<lambda>v. []) \<lparr>alias = Arr [Str (js ''a=1''), Str (js ''b=2''), Str (js ''a=3'')]\<rparr> =
     (Some (NonFatalError (failure_message (\<lambda>v. []) [] [Str (js ''a=3'')])),
      \<lparr>alias = Obj [(js ''entries'',
          Arr (map entry_obj [\<lparr>entry_find = js ''a'', entry_replacement = js ''1''\<rparr>,
                              \<lparr>entry_find = js ''b'', entry_replacement = js ''2''\<rparr>]))]\<rparr>)"
    by code_simp
  have h2: "Array_isArray (alias \<lparr>alias = Arr [Str (js ''a=1''), Str (js ''b=2''), Str (js ''a=3'')]\<rparr>)"
    by simp
  have h3: "Some (NonFatalError (failure_message (\<lambda>v. []) [] [Str (js ''a=3'')])) \<noteq> Some TypeError"
    by simp
  from accepted_finds_distinct [OF h1 h2 h3] h1 h2 h3 show ?thesis by blast
qed

subsection \<open>C7: the input plugin\<close>

text \<open>
  C7: \<open>getInputPlugin\<close> returns a plugin, the transform applied to the alias value,
  exactly when the configuration has flags whose alias value is of type \<open>object\<close>
  (an object, an array or \<open>null\<close>); when the alias value is \<open>undefined\<close>, or there are
  no flags, it returns nothing.
\<close>

theorem input_plugin_for_object_alias:
  "((getInputPlugin alias_transform bd \<noteq> None) =
      (\<exists>fl. cliFlags bd = Some fl \<and> typeof (alias fl) = js ''object''))
   \<and> (cliFlags bd = Some fl \<and> typeof (alias fl) = js ''object'' \<longrightarrow>
        getInputPlugin alias_transform bd = Some (alias_transform (alias fl)))
   \<and> (cliFlags bd = Some fl \<and> alias fl = Undefined \<longrightarrow> getInputPlugin alias_transform bd = None)
   \<and> (cliFlags bd = None \<longrightarrow> getInputPlugin alias_transform bd = None)
   \<and> ((typeof v = js ''object'') = (v = Null \<or> (\<exists>xs. v = Arr xs) \<or> (\<exists>ps. v = Obj ps)))"
proof -
  have ne: "js ''undefined'' \<noteq> js ''object''" "js ''boolean'' \<noteq> js ''object''"
    "js ''string'' \<noteq> js ''object''"
    by (simp_all add: js_def)
  have ty: "(typeof v = js ''object'') = (v = Null \<or> (\<exists>xs. v = Arr xs) \<or> (\<exists>ps. v = Obj ps))"
    by (cases v) (simp_all add: ne)
  show ?thesis
    by (cases "cliFlags bd") (auto simp: getInputPlugin_def ne ty)
qed

text \<open>A configuration that verification has resolved, one left undefined, one without flags.\<close>

theorem input_plugin_for_object_alias_witness:
  "cliFlags \<lparr>cliFlags = Some \<lparr>alias = Obj [(js ''entries'', Arr [])]\<rparr>\<rparr> =
      Some \<lparr>alias = Obj [(js ''entries'', Arr [])]\<rparr>
   \<and> typeof (alias \<lparr>alias = Obj [(js ''entries'', Arr [])]\<rparr>) = js ''object''
   \<and> getInputPlugin (\<lambda>options. (js ''alias'', options))
        \<lparr>cliFlags = Some \<lparr>alias = Obj [(js ''entries'', Arr [])]\<rparr>\<rparr> =
      Some (js ''alias'', Obj [(js ''entries'', Arr [])])
   \<and> cliFlags \<lparr>cliFlags = Some \<lparr>alias = Undefined\<rparr>\<rparr> = Some \<lparr>alias = Undefined\<rparr>
   \<and> getInputPlugin (\<lambda>options. (js ''alias'', options)) \<lparr>cliFlags = Some \<lparr>alias = Undefined\<rparr>\<rparr> = None
   \<and> cliFlags \<lparr>cliFlags = None\<rparr> = None
   \<and> getInputPlugin (\<lambda>options. (js ''alias'', options)) \<lparr>cliFlags = None\<rparr> = None"
proof -
  let ?T = "\<lambda>options. (js ''alias'', options)"
  let ?fl = "\<lparr>alias = Obj [(js ''entries'', Arr [])]\<rparr>"
  have h1: "cliFlags \<lparr>cliFlags = Some ?fl\<rparr> = Some ?fl \<and> typeof (alias ?fl) = js ''object''"
    by simp
  have h2: "cliFlags \<lparr>cliFlags = Some \<lparr>alias = Undefined\<rparr>\<rparr> = Some \<lparr>alias = Undefined\<rparr>
      \<and> alias \<lparr>alias = Undefined\<rparr> = Undefined"
    by simp
  have h3: "cliFlags \<lparr>cliFlags = None\<rparr> = None"
    by simp
  note t1 = input_plugin_for_object_alias [of ?T "\<lparr>cliFlags = Some ?fl\<rparr>" ?fl]
  note t2 = input_plugin_for_object_alias [of ?T "\<lparr>cliFlags = Some \<lparr>alias = Undefined\<rparr>\<rparr>" "\<lparr>alias = Undefined\<rparr>"]
  note t3 = input_plugin_for_object_alias [of ?T "\<lparr>cliFlags = None\<rparr>"]
  show ?thesis
    using t1 t2 t3 h1 h2 h3 by simp
qed

subsection \<open>C8: verification carries no state between calls\<close>



subsection \<open>C9: a flag that is not an array\<close>

text \<open>
  C9: if the alias value is not an array, each verifier throws nothing and leaves the
  flags object as it is, the alias value and every other field.
\<close>

theorem not_an_array_unchanged:
  assumes "\<not> Array_isArray (alias fl)"
  shows "verify J fl = (None, fl) \<and> init_verify J fl = (None, fl)"
  using assms by (simp add: verify_not_array init_verify_not_array)

text \<open>A flags object whose alias is \<open>undefined\<close>.\<close>

theorem not_an_array_unchanged_witness:
  "\<not> Array_isArray (alias \<lparr>alias = Undefined, \<dots> = js ''other flags''\<rparr>)
   \<and> verify (\<lambda>v. []) \<lparr>alias = Undefined, \<dots> = js ''other flags''\<rparr> =
       (None, \<lparr>alias = Undefined, \<dots> = js ''other flags''\<rparr>)
   \<and> init_verify (\<lambda>v. []) \<lparr>alias = Undefined, \<dots> = js ''other flags''\<rparr> =
       (None, \<lparr>alias = Undefined, \<dots> = js ''other flags''\<rparr>)"
proof -
  have h: "\<not> Array_isArray (alias \<lparr>alias = Undefined, \<dots> = js ''other flags''\<rparr>)"
    by simp
  from not_an_array_unchanged [OF h, of "\<lambda>v. []"] h show ?thesis by blast
qed

subsection \<open>C10: the flag is replaced before the error is thrown\<close>

text \<open>
  C10: whenever a verifier throws its verification error, the loop has run to the end over
  the array, at least one entry does not parse (or, in \<open>PluginLoader.addFlags\<close>, overwrites
  an accepted one), and the flags object that the call leaves behind already holds the
  accepted entries in place of the array it was given: the change survives the error.
\<close>

theorem alias_replaced_before_throw:
  "(verify J fl = (Some err, fl') \<and> err \<noteq> TypeError \<longrightarrow>
      (\<exists>xs st. alias fl = Arr xs \<and> verify_forEach xs start = Inr st
         \<and> (badEntries st \<noteq> [] \<or> warnEntries st \<noteq> [])
         \<and> err = NonFatalError (failure_message J (badEntries st) (warnEntries st))
         \<and> fl' = fl\<lparr>alias := Obj [(js ''entries'', Arr (map entry_obj (entries st)))]\<rparr>
         \<and> alias fl' \<noteq> alias fl))
   \<and> (init_verify J fl = (Some err, fl') \<and> err \<noteq> TypeError \<longrightarrow>
      (\<exists>xs st. alias fl = Arr xs \<and> init_verify_forEach xs init_start = Inr st
         \<and> init_badEntries st \<noteq> []
         \<and> err = Error (init_bad_text (J (Arr (init_badEntries st)))) (Some False)
         \<and> fl' = fl\<lparr>alias := Arr (map entry_obj (init_entries st))\<rparr>
         \<and> alias fl' \<noteq> alias fl))"
proof (intro conjI impI)
  assume a: "verify J fl = (Some err, fl') \<and> err \<noteq> TypeError"
  then have arr: "Array_isArray (alias fl)"
    using verify_not_array [of fl J] by auto
  then obtain xs where xs: "alias fl = Arr xs"
    by (cases "alias fl") simp_all
  then have fl: "fl\<lparr>alias := Arr xs\<rparr> = fl" by simp
  show "\<exists>xs st. alias fl = Arr xs \<and> verify_forEach xs start = Inr st
         \<and> (badEntries st \<noteq> [] \<or> warnEntries st \<noteq> [])
         \<and> err = NonFatalError (failure_message J (badEntries st) (warnEntries st))
         \<and> fl' = fl\<lparr>alias := Obj [(js ''entries'', Arr (map entry_obj (entries st)))]\<rparr>
         \<and> alias fl' \<noteq> alias fl"
  proof (cases "verify_forEach xs start")
    case (Inl e)
    with verify_forEach_error [OF Inl] verify_TypeError [OF Inl, of J fl] a fl
    show ?thesis by simp
  next
    case (Inr st)
    from verify_result [OF Inr, of J fl] a fl
    have "(badEntries st \<noteq> [] \<or> warnEntries st \<noteq> [])
         \<and> err = NonFatalError (failure_message J (badEntries st) (warnEntries st))
         \<and> fl' = fl\<lparr>alias := Obj [(js ''entries'', Arr (map entry_obj (entries st)))]\<rparr>"
      by (auto split: if_splits)
    moreover from this have "alias fl' \<noteq> alias fl" using xs by simp
    ultimately show ?thesis using xs Inr by blast
  qed
next
  assume a: "init_verify J fl = (Some err, fl') \<and> err \<noteq> TypeError"
  then have arr: "Array_isArray (alias fl)"
    using init_verify_not_array [of fl J] by auto
  then obtain xs where xs: "alias fl = Arr xs"
    by (cases "alias fl") simp_all
  then have fl: "fl\<lparr>alias := Arr xs\<rparr> = fl" by simp
  show "\<exists>xs st. alias fl = Arr xs \<and> init_verify_forEach xs init_start = Inr st
         \<and> init_badEntries st \<noteq> []
         \<and> err = Error (init_bad_text (J (Arr (init_badEntries st)))) (Some False)
         \<and> fl' = fl\<lparr>alias := Arr (map entry_obj (init_entries st))\<rparr>
         \<and> alias fl' \<noteq> alias fl"
  proof (cases "init_verify_forEach xs init_start")
    case (Inl e)
    with init_verify_forEach_error [OF Inl] a xs
    show ?thesis by (auto simp: init_verify_def)
  next
    case (Inr st)
    from init_verify_result [OF Inr, of J fl] a fl
    have r: "init_badEntries st \<noteq> []"
         "err = Error (init_bad_text (J (Arr (init_badEntries st)))) (Some False)"
         "fl' = fl\<lparr>alias := Arr (map entry_obj (init_entries st))\<rparr>"
      by (auto split: if_splits)
    have "length (init_entries st) < length xs"
      using init_verify_forEach_length [OF Inr] r(1) by (cases "init_badEntries st") simp_all
    then have "map entry_obj (init_entries st) \<noteq> xs" by auto
    then have "alias fl' \<noteq> alias fl" using xs r(3) by simp
    with r xs Inr show ?thesis by blast
  qed
qed

text \<open>The runs on \<open>["a=1", "a=2"]\<close>, and for the init hook on \<open>["a=1", "a"]\<close>.\<close>

theorem alias_replaced_before_throw_witness:
  "(verify (\<lambda>v. []) \<lparr>alias = Arr [Str (js ''a=1''), Str (js ''a=2'')]\<rparr> =
      (Some (NonFatalError (failure_message (\<lambda>v. []) [] [Str (js ''a=2'')])),
       \<lparr>alias = Obj [(js ''entries'', Arr [entry_obj \<lparr>entry_find = js ''a'', entry_replacement = js ''1''\<rparr>])]\<rparr>)
     \<and> NonFatalError (failure_message (\<lambda>v. []) [] [Str (js ''a=2'')]) \<noteq> TypeError)
   \<and> (\<exists>xs st. alias \<lparr>alias = Arr [Str (js ''a=1''), Str (js ''a=2'')]\<rparr> = Arr xs
         \<and> verify_forEach xs start = Inr st
         \<and> \<lparr>alias = Obj [(js ''entries'', Arr [entry_obj \<lparr>entry_find = js ''a'', entry_replacement = js ''1''\<rparr>])]\<rparr> =
             \<lparr>alias = Arr [Str (js ''a=1''), Str (js ''a=2'')]\<rparr>\<lparr>alias := Obj [(js ''entries'', Arr (map entry_obj (entries st)))]\<rparr>
         \<and> alias \<lparr>alias = Obj [(js ''entries'', Arr [entry_obj \<lparr>entry_find = js ''a'', entry_replacement = js ''1''\<rparr>])]\<rparr> \<noteq>
             alias \<lparr>alias = Arr [Str (js ''a=1''), Str (js ''a=2'')]\<rparr>)
   \<and> (init_verify (\<lambda>v. []) \<lparr>alias = Arr [Str (js ''a=1''), Str (js ''a'')]\<rparr> =
      (Some (Error (init_bad_text []) (Some False)),
       \<lparr>alias = Arr [entry_obj \<lparr>entry_find = js ''a'', entry_replacement = js ''1''\<rparr>]\<rparr>)
     \<and> Error (init_bad_text []) (Some False) \<noteq> TypeError)
   \<and> (\<exists>xs st. alias \<lparr>alias = Arr [Str (js ''a=1''), Str (js ''a'')]\<rparr> = Arr xs
         \<and> init_verify_forEach xs init_start = Inr st
         \<and> \<lparr>alias = Arr [entry_obj \<lparr>entry_find = js ''a'', entry_replacement = js ''1''\<rparr>]\<rparr> =
             \<lparr>alias = Arr [Str (js ''a=1''), Str (js ''a'')]\<rparr>\<lparr>alias := Arr (map entry_obj (init_entries st))\<rparr>
         \<and> alias \<lparr>alias = Arr [entry_obj \<lparr>entry_find = js ''a'', entry_replacement = js ''1''\<rparr>]\<rparr> \<noteq>
             alias \<lparr>alias = Arr [Str (js ''a=1''), Str (js ''a'')]\<rparr>)"
proof -
  let ?fl = "\<lparr>alias = Arr [Str (js ''a=1''), Str (js ''a=2'')]\<rparr>"
  let ?fl' = "\<lparr>alias = Obj [(js ''entries'', Arr [entry_obj \<lparr>entry_find = js ''a'', entry_replacement = js ''1''\<rparr>])]\<rparr>"
  let ?err = "NonFatalError (failure_message (\<lambda>v. []) [] [Str (js ''a=2'')])"
  let ?gl = "\<lparr>alias = Arr [Str (js ''a=1''), Str (js ''a'')]\<rparr>"
  let ?gl' = "\<lparr>alias = Arr [entry_obj \<lparr>entry_find = js ''a'', entry_replacement = js ''1''\<rparr>]\<rparr>"
  let ?ierr = "Error (init_bad_text []) (Some False)"
  have h1: "verify (\<lambda>v. []) ?fl = (Some ?err, ?fl') \<and> ?err \<noteq> TypeError"
    by code_simp
  have h2: "init_verify (\<lambda>v. []) ?gl = (Some ?ierr, ?gl') \<and> ?ierr \<noteq> TypeError"
    by code_simp
  from alias_replaced_before_throw [of "\<lambda>v. []" ?fl ?err ?fl'] h1
  have c1: "\<exists>xs st. alias ?fl = Arr xs \<and> verify_forEach xs start = Inr st
         \<and> ?fl' = ?fl\<lparr>alias := Obj [(js ''entries'', Arr (map entry_obj (entries st)))]\<rparr>
         \<and> alias ?fl' \<noteq> alias ?fl"
    by blast
  from alias_replaced_before_throw [of "\<lambda>v. []" ?gl ?ierr ?gl'] h2
  have c2: "\<exists>xs st. alias ?gl = Arr xs \<and> init_verify_forEach xs init_start = Inr st
         \<and> ?gl' = ?gl\<lparr>alias := Arr (map entry_obj (init_entries st))\<rparr>
         \<and> alias ?gl' \<noteq> alias ?gl"
    by blast
  show ?thesis by (rule conjI [OF h1 conjI [OF c1 conjI [OF h2 c2]]])
qed

end
